theory Spec2Isabelle
  imports Main "HOL-Library.Sublist"
begin

section \<open>Python values and observable effects\<close>

text \<open>
  The build watcher (\<^verbatim>\<open>app.py\<close>) is a set of Python functions that talk to the outside
  world: they write log records, put references on a queue, run the \<^verbatim>\<open>skopeo\<close>
  command, call the analysis service and start processes. Each function is embedded as a
  HOL function that returns the list of effects it performs, in order, together with its
  result. A raised exception is the \<open>Inl\<close> branch of the result.

  An argument declared \<^verbatim>\<open>str = None\<close> is a \<open>string option\<close>. The test
  \<^verbatim>\<open>if x:\<close> on such a value holds when it is neither \<^verbatim>\<open>None\<close> nor the empty string.
\<close>

definition truthy :: "string option \<Rightarrow> bool" where
  "truthy v = (case v of None \<Rightarrow> False | Some s \<Rightarrow> s \<noteq> [])"

text \<open>
  Instances of Python's \<^verbatim>\<open>Exception\<close>, which is what \<^verbatim>\<open>except Exception\<close> catches.
  \<open>External\<close> stands for whatever an external collaborator (the copy tool, the analysis
  client, the cluster client) raises; the payload is the text \<^verbatim>\<open>str(exc)\<close> gives.
\<close>

datatype exn =
    IndexError string
  | TypeError string
  | ValueError string
  | RuntimeError string
  | External string

fun str_exn :: "exn \<Rightarrow> string" where
  "str_exn (IndexError m) = m"
| "str_exn (TypeError m) = m"
| "str_exn (ValueError m) = m"
| "str_exn (RuntimeError m) = m"
| "str_exn (External m) = m"

datatype level = DEBUG | INFO | EXCEPTION

datatype arg = S string | N int

text \<open>The units \<^verbatim>\<open>cli\<close> starts with \<^verbatim>\<open>Process(...).start()\<close>.\<close>

datatype proc = ExistingProducer | EventProducer | Submitter nat

text \<open>The keyword arguments of the call \<^verbatim>\<open>image_analysis(...)\<close>.\<close>

record analysis_request =
  req_image :: string
  req_registry_user :: "string option"
  req_registry_password :: "string option"
  req_verify_tls :: bool
  req_nowait :: bool

datatype effect =
    Log level string "arg list"
  | QueuePut string
  | RunCommand string
  | ImageAnalysis analysis_request
  | SetLevelDebug
  | Configure string bool
  | Start proc

definition queue_writes :: "effect list \<Rightarrow> string list" where
  "queue_writes t = concat (map (\<lambda>e. case e of QueuePut r \<Rightarrow> [r] | _ \<Rightarrow> []) t)"

definition submitted :: "effect list \<Rightarrow> analysis_request list" where
  "submitted t = concat (map (\<lambda>e. case e of ImageAnalysis r \<Rightarrow> [r] | _ \<Rightarrow> []) t)"

definition commands :: "effect list \<Rightarrow> string list" where
  "commands t = concat (map (\<lambda>e. case e of RunCommand c \<Rightarrow> [c] | _ \<Rightarrow> []) t)"

definition started :: "effect list \<Rightarrow> proc list" where
  "started t = concat (map (\<lambda>e. case e of Start p \<Rightarrow> [p] | _ \<Rightarrow> []) t)"

section \<open>The event producer\<close>

text \<open>
  What \<^verbatim>\<open>_event_producer\<close> reads of one watch event: \<^verbatim>\<open>event["object"].metadata.name\<close>,
  \<^verbatim>\<open>.status.phase\<close> and \<^verbatim>\<open>.status.outputDockerImageReference\<close>.
\<close>

record build_event =
  metadata_name :: string
  status_phase :: string
  status_outputDockerImageReference :: string

text \<open>One pass through the body of the \<^verbatim>\<open>for event in v1_build.watch(...)\<close> loop.\<close>

definition event_producer_body :: "build_event \<Rightarrow> effect list" where
  "event_producer_body event =
     (if status_phase event \<noteq> ''Complete'' then
        [Log DEBUG ''Ignoring build event for %r - not completed phase %r''
           [S (metadata_name event), S (status_phase event)]]
      else
        [Log INFO ''Queueing %r based on build event %r for further processing''
           [S (status_outputDockerImageReference event), S (metadata_name event)],
         QueuePut (status_outputDockerImageReference event)])"

fun event_producer_loop :: "build_event list \<Rightarrow> effect list" where
  "event_producer_loop [] = []"
| "event_producer_loop (event # events) =
     event_producer_body event @ event_producer_loop events"

text \<open>
  \<^verbatim>\<open>_event_producer\<close> on the events the watch has yielded so far. The watch never ends by
  itself, so the function is a view of the producer after that many events.
\<close>

definition event_producer :: "build_event list \<Rightarrow> effect list" where
  "event_producer events =
     Log INFO ''Starting event producer'' [] # event_producer_loop events"

section \<open>Python string operations used by the submission worker\<close>

text \<open>
  \<^verbatim>\<open>s.replace(old, new)\<close> replaces the occurrences of \<open>old\<close> from left to right, without
  overlap. For an empty \<open>old\<close> Python puts \<open>new\<close> before every character and at the end.
\<close>

function replace_scan :: "string \<Rightarrow> string \<Rightarrow> string \<Rightarrow> string" where
  "replace_scan old new s =
     (if s = [] then []
      else if old \<noteq> [] \<and> prefix old s
        then new @ replace_scan old new (drop (length old) s)
      else hd s # replace_scan old new (tl s))"
  by pat_completeness auto
termination
  by (relation "measure (\<lambda>(old, new, s). length s)") auto

declare replace_scan.simps [simp del]

definition str_replace :: "string \<Rightarrow> string \<Rightarrow> string \<Rightarrow> string" where
  "str_replace s old new =
     (if old = [] then new @ concat (map (\<lambda>c. c # new) s) else replace_scan old new s)"

text \<open>
  \<^verbatim>\<open>s.rsplit(sep, maxsplit=1)\<close> for a separator of one character: one split at the last
  occurrence of the separator, or the whole string alone when it has none.
\<close>

definition str_rsplit1 :: "string \<Rightarrow> char \<Rightarrow> string list" where
  "str_rsplit1 s sep =
     (if sep \<in> set s
      then [rev (drop 1 (dropWhile (\<lambda>c. c \<noteq> sep) (rev s))),
            rev (takeWhile (\<lambda>c. c \<noteq> sep) (rev s))]
      else [s])"

text \<open>\<^verbatim>\<open>xs[i]\<close> for an index that is not negative.\<close>

definition list_index :: "'a list \<Rightarrow> nat \<Rightarrow> exn + 'a" where
  "list_index xs i =
     (if i < length xs then Inr (xs ! i) else Inl (IndexError ''list index out of range''))"

section \<open>The submission worker\<close>

text \<open>
  The collaborators of the worker that are not part of \<^verbatim>\<open>app.py\<close>: the path
  \<^verbatim>\<open>_SKOPEO_EXEC_PATH\<close>, \<^verbatim>\<open>thoth.analyzer.run_command\<close> (which returns an object with
  \<^verbatim>\<open>stdout\<close> and \<^verbatim>\<open>stderr\<close>, or raises) and \<^verbatim>\<open>thamos.lib.image_analysis\<close> (which
  returns the analysis id, or raises).
\<close>

record env =
  skopeo_exec_path :: string
  run_command :: "string \<Rightarrow> exn + string \<times> string"
  image_analysis :: "analysis_request \<Rightarrow> exn + string"

text \<open>The text \<^verbatim>\<open>cmd\<close> that \<^verbatim>\<open>_push_image\<close> builds, lines 136 to 161.\<close>

definition copy_cmd ::
  "string \<Rightarrow> bool \<Rightarrow> bool \<Rightarrow> string option \<Rightarrow> string option \<Rightarrow> string \<Rightarrow> string \<Rightarrow> string"
where
  "copy_cmd skopeo src_verify_tls dst_verify_tls registry_user registry_password img output =
     skopeo @ '' copy ''
     @ (if \<not> src_verify_tls then ''--src-tls-verify=false '' else [])
     @ (if \<not> dst_verify_tls then ''--dest-tls-verify=false '' else [])
     @ (case registry_user of
          None \<Rightarrow> []
        | Some user \<Rightarrow>
            if user = [] then []
            else ''--dest-creds='' @ user
              @ (case registry_password of
                   None \<Rightarrow> []
                 | Some password \<Rightarrow> if password = [] then [] else '':'' @ password)
              @ '' '')
     @ ''docker://'' @ img @ '' docker://'' @ output"

text \<open>
  \<^verbatim>\<open>_push_image\<close>. The index \<^verbatim>\<open>[1]\<close> raises IndexError when the image has no slash.
  \<^verbatim>\<open>cmd.replace(registry_password, "***")\<close> is an argument of the logging call and is
  evaluated before it: with \<^verbatim>\<open>registry_password\<close> None it raises TypeError, before
  \<^verbatim>\<open>run_command\<close> is reached.
\<close>

definition push_image ::
  "env \<Rightarrow> string \<Rightarrow> string \<Rightarrow> string option \<Rightarrow> string option \<Rightarrow> bool \<Rightarrow> bool
     \<Rightarrow> effect list \<times> (exn + string)"
where
  "push_image env img push_registry registry_user registry_password
       src_verify_tls dst_verify_tls =
     (case list_index (str_rsplit1 img CHR ''/'') 1 of
        Inl e \<Rightarrow> ([], Inl e)
      | Inr image_name \<Rightarrow>
          let output = push_registry @ ''/'' @ image_name;
              cmd = copy_cmd (skopeo_exec_path env) src_verify_tls dst_verify_tls
                      registry_user registry_password img output;
              t1 = [Log DEBUG ''Pushing image %r from %r to registry %r, output is %r''
                      [S image_name, S img, S push_registry, S output]]
          in case registry_password of
               None \<Rightarrow>
                 (t1, Inl (TypeError ''replace() argument 1 must be str, not None''))
             | Some password \<Rightarrow>
                 let t2 = t1 @ [Log DEBUG ''Running: %s'' [S (str_replace cmd password ''***'')],
                                RunCommand cmd]
                 in case run_command env cmd of
                      Inl e \<Rightarrow> (t2, Inl e)
                    | Inr (out, err) \<Rightarrow>
                        (t2 @ [Log DEBUG (''%s stdout:'' @ [CHR 0x0A] @ ''%s'' @ [CHR 0x0A] @ ''%s'')
                                 [S (skopeo_exec_path env), S out, S err]],
                         Inr output))"

text \<open>\<^verbatim>\<open>_do_analyze_image\<close>, lines 94 to 108: the optional relocation.\<close>

definition relocate ::
  "env \<Rightarrow> string \<Rightarrow> string option \<Rightarrow> string option \<Rightarrow> string option \<Rightarrow> bool \<Rightarrow> bool
     \<Rightarrow> effect list \<times> (exn + string)"
where
  "relocate env output_reference push_registry registry_user registry_password
       src_verify_tls dst_verify_tls =
     (case push_registry of
        None \<Rightarrow> ([], Inr output_reference)
      | Some registry \<Rightarrow>
          if registry = [] then ([], Inr output_reference)
          else
            let t0 = [Log INFO ''Pushing image %r to an external push registry %r''
                        [S output_reference, S registry]]
            in case push_image env output_reference registry registry_user registry_password
                      src_verify_tls dst_verify_tls of
                 (t, Inl e) \<Rightarrow> (t0 @ t, Inl e)
               | (t, Inr pushed) \<Rightarrow>
                   (t0 @ t @ [Log INFO ''Successfully pushed image to %r'' [S pushed]],
                    Inr pushed))"

text \<open>\<^verbatim>\<open>_do_analyze_image\<close>, lines 110 to 124: the submission.\<close>

definition submit ::
  "env \<Rightarrow> string \<Rightarrow> string option \<Rightarrow> string option \<Rightarrow> bool \<Rightarrow> effect list \<times> (exn + string)"
where
  "submit env output_reference registry_user registry_password dst_verify_tls =
     (let request = \<lparr>req_image = output_reference, req_registry_user = registry_user,
                      req_registry_password = registry_password,
                      req_verify_tls = dst_verify_tls, req_nowait = True\<rparr>
      in case image_analysis env request of
           Inl e \<Rightarrow> ([ImageAnalysis request], Inl e)
         | Inr analysis_id \<Rightarrow>
             ([ImageAnalysis request,
               Log INFO ''Successfully submitted %r to Thoth for analysis; analysis id: %s''
                 [S output_reference, S analysis_id]],
              Inr analysis_id))"

definition do_analyze_image ::
  "env \<Rightarrow> string \<Rightarrow> string option \<Rightarrow> string option \<Rightarrow> string option \<Rightarrow> bool \<Rightarrow> bool
     \<Rightarrow> effect list \<times> (exn + string)"
where
  "do_analyze_image env output_reference push_registry registry_user registry_password
       src_verify_tls dst_verify_tls =
     (case relocate env output_reference push_registry registry_user registry_password
             src_verify_tls dst_verify_tls of
        (t, Inl e) \<Rightarrow> (t, Inl e)
      | (t, Inr reference) \<Rightarrow>
          (case submit env reference registry_user registry_password dst_verify_tls of
             (u, r) \<Rightarrow> (t @ u, r)))"

text \<open>
  One pass through the body of the \<^verbatim>\<open>while True\<close> loop of \<^verbatim>\<open>_submitter\<close>, for the
  reference \<^verbatim>\<open>queue.get()\<close> returned. The result is \<open>Inl\<close> when an exception leaves the
  body, which would end the worker.
\<close>

definition submitter_body ::
  "env \<Rightarrow> string option \<Rightarrow> string option \<Rightarrow> string option \<Rightarrow> bool \<Rightarrow> string
     \<Rightarrow> effect list \<times> (exn + unit)"
where
  "submitter_body env push_registry registry_user registry_password no_registry_tls_verify
       output_reference =
     (let t0 = [Log INFO ''Handling analysis of image %r'' [S output_reference]]
      in case do_analyze_image env output_reference push_registry registry_user
                registry_password (\<not> no_registry_tls_verify) (\<not> no_registry_tls_verify) of
           (t, Inl exc) \<Rightarrow>
             (t0 @ t @ [Log EXCEPTION ''Failed to submit image %r for analysis to Thoth: %s''
                          [S output_reference, S (str_exn exc)]],
              Inr ())
         | (t, Inr analysis_id) \<Rightarrow> (t0 @ t, Inr ()))"

text \<open>
  The state of a worker after it has taken the given references from the queue, one at
  a time: it waits in \<^verbatim>\<open>queue.get()\<close> for the next one, or an exception has ended it.
\<close>

datatype worker_state = Waiting | Died exn

fun submitter ::
  "env \<Rightarrow> string option \<Rightarrow> string option \<Rightarrow> string option \<Rightarrow> bool \<Rightarrow> string list
     \<Rightarrow> effect list \<times> worker_state"
where
  "submitter env push_registry registry_user registry_password no_registry_tls_verify [] =
     ([], Waiting)"
| "submitter env push_registry registry_user registry_password no_registry_tls_verify
       (output_reference # rest) =
     (case submitter_body env push_registry registry_user registry_password
             no_registry_tls_verify output_reference of
        (t, Inl e) \<Rightarrow> (t, Died e)
      | (t, Inr u) \<Rightarrow>
          (case submitter env push_registry registry_user registry_password
                  no_registry_tls_verify rest of
             (t', st) \<Rightarrow> (t @ t', st)))"

section \<open>The supervisor\<close>

text \<open>The parameters of \<^verbatim>\<open>cli\<close>, as click hands them over.\<close>

record config =
  cfg_build_watcher_namespace :: string
  cfg_thoth_api_host :: string
  cfg_verbose :: bool
  cfg_no_tls_verify :: bool
  cfg_no_registry_tls_verify :: bool
  cfg_pass_token :: bool
  cfg_registry_user :: "string option"
  cfg_registry_password :: "string option"
  cfg_push_registry :: "string option"
  cfg_analyze_existing :: bool
  cfg_workers_count :: int

text \<open>
  The list \<^verbatim>\<open>args\<close> of line 338 without the queue: push registry, registry user,
  registry password, no-registry-tls-verify.
\<close>

type_synonym submitter_args = "string option \<times> string option \<times> string option \<times> bool"

text \<open>
  The loop of lines 343 to 347 over \<^verbatim>\<open>range(workers_count)\<close>; \<open>pid\<close> is the process
  id the operating system gives a started process.
\<close>

fun start_workers :: "(proc \<Rightarrow> int) \<Rightarrow> nat list \<Rightarrow> effect list \<times> proc list" where
  "start_workers pid [] = ([], [])"
| "start_workers pid (worker # rest) =
     (case start_workers pid rest of
        (t, process_pool) \<Rightarrow>
          ([Start (Submitter worker),
            Log INFO ''Started a new worker with PID: %d'' [N (pid (Submitter worker))]] @ t,
           Submitter worker # process_pool))"

text \<open>
  \<^verbatim>\<open>cli\<close> up to line 347. \<open>openshift\<close> is what \<^verbatim>\<open>OpenShift()\<close> gives: an exception, or
  a client, of which only the token is read. The result is the exception that ends the
  start, or the process pool with the arguments the workers were given.
\<close>

definition cli_startup ::
  "config \<Rightarrow> exn + string \<Rightarrow> (proc \<Rightarrow> int) \<Rightarrow> effect list \<times> (exn + proc list \<times> submitter_args)"
where
  "cli_startup cfg openshift pid =
     (let t0 = (if cfg_verbose cfg then [SetLevelDebug] else [])
             @ [Log INFO (''Build watcher is watching namespace %r and submitting ''
                          @ ''resulting images to Thoth at %r'')
                  [S (cfg_build_watcher_namespace cfg), S (cfg_thoth_api_host cfg)]]
             @ (if cfg_analyze_existing cfg then [Start ExistingProducer] else [])
             @ [Configure (cfg_thoth_api_host cfg) (\<not> cfg_no_tls_verify cfg)]
      in case openshift of
           Inl e \<Rightarrow> (t0, Inl e)
         | Inr token \<Rightarrow>
             if cfg_pass_token cfg \<and> truthy (cfg_registry_password cfg) then
               (t0, Inl (ValueError
                  ''Flag --pass-token is disjoint with explicit password propagation''))
             else
               let registry_password =
                     (if cfg_pass_token cfg then Some token else cfg_registry_password cfg);
                   args = (cfg_push_registry cfg, cfg_registry_user cfg, registry_password,
                           cfg_no_registry_tls_verify cfg)
               in case start_workers pid [0 ..< nat (cfg_workers_count cfg)] of
                    (t, process_pool) \<Rightarrow>
                      (t0 @ [Start EventProducer,
                             Log INFO ''Starting worker processes, number of workers is set to: %d''
                               [N (cfg_workers_count cfg)]] @ t,
                       Inr (process_pool, args)))"

text \<open>
  The poll loop of lines 350 to 354. Each element of the list is what \<^verbatim>\<open>is_alive()\<close>
  answers for every process at one pass of the loop; the number counts the seconds slept
  so far. The loop has no exit of its own: when the list is used up it is still polling.
\<close>

datatype outcome = Uncaught exn nat | Polling nat

fun supervise :: "proc list \<Rightarrow> (proc \<Rightarrow> bool) list \<Rightarrow> nat \<Rightarrow> outcome" where
  "supervise process_pool [] slept = Polling slept"
| "supervise process_pool (is_alive # later) slept =
     (if list_ex (\<lambda>process. \<not> is_alive process) process_pool
      then Uncaught (RuntimeError ''One of the processes failed'') slept
      else supervise process_pool later (slept + 5))"

definition cli ::
  "config \<Rightarrow> exn + string \<Rightarrow> (proc \<Rightarrow> int) \<Rightarrow> (proc \<Rightarrow> bool) list \<Rightarrow> effect list \<times> outcome"
where
  "cli cfg openshift pid polls =
     (case cli_startup cfg openshift pid of
        (t, Inl e) \<Rightarrow> (t, Uncaught e 0)
      | (t, Inr (process_pool, args)) \<Rightarrow> (t, supervise process_pool polls 0))"

text \<open>
  Line 361, \<^verbatim>\<open>sys.exit(cli())\<close>. While the loop polls there is no exit status. An exception
  that nothing catches ends \<^verbatim>\<open>cli\<close> with status 1, but the interpreter leaves only after it
  has joined the processes that were started: lines 319, 335 and 344 create them with
  \<^verbatim>\<open>Process(target=..., args=...)\<close>, so none of them is a daemon. \<open>runs_on\<close> tells which
  units do not end; as long as one of the started units runs on, the process does not end.
\<close>

definition exit_status :: "effect list \<Rightarrow> outcome \<Rightarrow> (proc \<Rightarrow> bool) \<Rightarrow> int option" where
  "exit_status t out runs_on =
     (case out of
        Polling slept \<Rightarrow> None
      | Uncaught e slept \<Rightarrow> if list_ex runs_on (started t) then None else Some 1)"

section \<open>Producers and workers around the queue\<close>

text \<open>
  The queue of line 315 is shared by the producers, which call \<^verbatim>\<open>queue.put\<close>, and by the
  workers, which call \<^verbatim>\<open>queue.get\<close> at the head of their loop (line 181). The units run
  as separate processes, so a run is an interleaving of their queue operations:
  \<^item> \<open>Put\<close>: a producer puts the next reference it has discovered at the back of the queue;
  \<^item> \<open>Get w\<close>: worker \<open>w\<close> takes the reference at the front of the queue and runs the body
    of its loop on it, which is one submission attempt.
  \<open>pending\<close> holds the references the producers have still to put, in the order in which
  they will reach the queue. An operation that cannot happen (nothing left to put, a
  worker that does not exist, an empty queue, on which \<^verbatim>\<open>get\<close> blocks) gives \<open>None\<close>.
  The number of workers is the length of the process pool that \<^verbatim>\<open>cli\<close> builds. A pass
  through the body of a worker's loop is one step: the body never raises, and the calls
  it makes to the copy tool and to the analysis service are taken to return.
\<close>

record pipeline =
  pending :: "string list"
  queue :: "string list"
  attempts :: "(nat \<times> string) list"

datatype action = Put | Get nat

fun exec :: "nat \<Rightarrow> action \<Rightarrow> pipeline \<Rightarrow> pipeline option" where
  "exec workers Put s =
     (case pending s of
        [] \<Rightarrow> None
      | r # rs \<Rightarrow> Some (s\<lparr>pending := rs, queue := queue s @ [r]\<rparr>))"
| "exec workers (Get w) s =
     (if w < workers then
        (case queue s of
           [] \<Rightarrow> None
         | r # rs \<Rightarrow> Some (s\<lparr>queue := rs, attempts := attempts s @ [(w, r)]\<rparr>))
      else None)"

fun run :: "nat \<Rightarrow> action list \<Rightarrow> pipeline \<Rightarrow> pipeline option" where
  "run workers [] s = Some s"
| "run workers (a # as) s =
     (case exec workers a s of None \<Rightarrow> None | Some s' \<Rightarrow> run workers as s')"

definition init :: "string list \<Rightarrow> pipeline" where
  "init refs = \<lparr>pending = refs, queue = [], attempts = []\<rparr>"

text \<open>No operation can happen: the run is over.\<close>

definition final :: "nat \<Rightarrow> pipeline \<Rightarrow> bool" where
  "final workers s = (pending s = [] \<and> (workers = 0 \<or> queue s = []))"

section \<open>Reading a trace\<close>

text \<open>The command texts written to the log by line 163, \<^verbatim>\<open>"Running: %s"\<close>.\<close>

definition running_logs :: "effect list \<Rightarrow> string list" where
  "running_logs t =
     concat (map (\<lambda>e. case e of
                         Log l f as \<Rightarrow>
                           (case as of
                              [S c] \<Rightarrow> if l = DEBUG \<and> f = ''Running: %s'' then [c] else []
                            | _ \<Rightarrow> [])
                       | _ \<Rightarrow> []) t)"

text \<open>The references a worker has announced by line 182, \<^verbatim>\<open>"Handling analysis of image %r"\<close>.\<close>

definition handled :: "effect list \<Rightarrow> string list" where
  "handled t =
     concat (map (\<lambda>e. case e of
                         Log l f as \<Rightarrow>
                           (case as of
                              [S r] \<Rightarrow>
                                if l = INFO \<and> f = ''Handling analysis of image %r'' then [r] else []
                            | _ \<Rightarrow> [])
                       | _ \<Rightarrow> []) t)"

text \<open>The failures a worker has logged by line 194, with the reference and the error text.\<close>

definition failures :: "effect list \<Rightarrow> (string \<times> string) list" where
  "failures t =
     concat (map (\<lambda>e. case e of
                         Log l f as \<Rightarrow>
                           (case as of
                              [S r, S m] \<Rightarrow> if l = EXCEPTION then [(r, m)] else []
                            | _ \<Rightarrow> [])
                       | _ \<Rightarrow> []) t)"

section \<open>Concrete collaborators for the examples\<close>

text \<open>A copy tool and an analysis service that always succeed.\<close>

definition env_ok :: env where
  "env_ok = \<lparr>skopeo_exec_path = ''skopeo'',
             run_command = (\<lambda>cmd. Inr ([], [])),
             image_analysis = (\<lambda>request. Inr ''analysis-1'')\<rparr>"

text \<open>An analysis service that rejects one image and accepts every other.\<close>

definition env_rejecting :: "string \<Rightarrow> env" where
  "env_rejecting bad =
     \<lparr>skopeo_exec_path = ''skopeo'',
      run_command = (\<lambda>cmd. Inr ([], [])),
      image_analysis =
        (\<lambda>request. if req_image request = bad then Inl (External ''rejected'')
                    else Inr ''analysis-1'')\<rparr>"

definition pid_of :: "proc \<Rightarrow> int" where
  "pid_of p = (case p of ExistingProducer \<Rightarrow> 100 | EventProducer \<Rightarrow> 101
                       | Submitter w \<Rightarrow> 102 + int w)"

text \<open>Liveness answers: every unit alive; all but the event producer; all but one worker.\<close>

definition all_alive :: "proc \<Rightarrow> bool" where
  "all_alive p = True"

definition event_producer_dead :: "proc \<Rightarrow> bool" where
  "event_producer_dead p = (p \<noteq> EventProducer)"

definition worker_dead :: "nat \<Rightarrow> proc \<Rightarrow> bool" where
  "worker_dead w p = (p \<noteq> Submitter w)"

text \<open>The options of a plain start with two workers.\<close>

definition example_config :: config where
  "example_config =
     \<lparr>cfg_build_watcher_namespace = ''builds'',
      cfg_thoth_api_host = ''api.thoth.example'',
      cfg_verbose = False,
      cfg_no_tls_verify = False,
      cfg_no_registry_tls_verify = False,
      cfg_pass_token = False,
      cfg_registry_user = None,
      cfg_registry_password = None,
      cfg_push_registry = None,
      cfg_analyze_existing = False,
      cfg_workers_count = 2\<rparr>"

section \<open>Properties of the event producer\<close>

lemma queue_writes_append: "queue_writes (t @ u) = queue_writes t @ queue_writes u"
  by (simp add: queue_writes_def)

lemma queue_writes_Cons_Log: "queue_writes (Log l f a # t) = queue_writes t"
  by (simp add: queue_writes_def)

lemma queue_writes_body:
  "queue_writes (event_producer_body event) =
     (if status_phase event = ''Complete''
      then [status_outputDockerImageReference event] else [])"
  by (simp add: event_producer_body_def queue_writes_def)

lemma queue_writes_loop:
  "queue_writes (event_producer_loop events) =
     map status_outputDockerImageReference
       (filter (\<lambda>e. status_phase e = ''Complete'') events)"
proof (induction events)
  case Nil
  show ?case by (simp add: queue_writes_def)
next
  case (Cons event events)
  then show ?case by (simp add: queue_writes_append queue_writes_body)
qed

text \<open>
  Claim C4. An event whose phase is not \<^verbatim>\<open>Complete\<close> causes no queue write, an event whose
  phase is \<^verbatim>\<open>Complete\<close> causes exactly one, of the output image reference on the build's
  status; and the loop goes on to the next event either way, so the writes of the whole
  run are the output references of the completed builds, in the order of the events.
\<close>

theorem event_producer_enqueues_completed:
  "queue_writes (event_producer_body event) =
     (if status_phase event = ''Complete''
      then [status_outputDockerImageReference event] else [])
   \<and> queue_writes (event_producer (events @ event # later)) =
       queue_writes (event_producer events)
       @ queue_writes (event_producer_body event)
       @ queue_writes (event_producer_loop later)
   \<and> queue_writes (event_producer events) =
       map status_outputDockerImageReference
         (filter (\<lambda>e. status_phase e = ''Complete'') events)"
proof -
  have loop_app: "event_producer_loop (xs @ ys) = event_producer_loop xs @ event_producer_loop ys"
    for xs ys
    by (induction xs) simp_all
  have a: "queue_writes (event_producer (events @ event # later)) =
       queue_writes (event_producer events)
       @ queue_writes (event_producer_body event)
       @ queue_writes (event_producer_loop later)"
    by (simp add: event_producer_def loop_app queue_writes_Cons_Log queue_writes_append)
  have b: "queue_writes (event_producer events) =
       map status_outputDockerImageReference
         (filter (\<lambda>e. status_phase e = ''Complete'') events)"
    by (simp add: event_producer_def queue_writes_Cons_Log queue_writes_loop)
  from a b show ?thesis
    by (simp add: queue_writes_body)
qed

theorem event_producer_enqueues_completed_witness:
  "queue_writes (event_producer
     [\<lparr>metadata_name = ''b-1'', status_phase = ''Running'',
        status_outputDockerImageReference = ''reg/ns/app:1''\<rparr>,
      \<lparr>metadata_name = ''b-1'', status_phase = ''Complete'',
        status_outputDockerImageReference = ''reg/ns/app:1''\<rparr>,
      \<lparr>metadata_name = ''b-2'', status_phase = ''Failed'',
        status_outputDockerImageReference = ''reg/ns/app:2''\<rparr>])
   = [''reg/ns/app:1'']"
  using event_producer_enqueues_completed
    [of "\<lparr>metadata_name = ''b-1'', status_phase = ''Complete'',
           status_outputDockerImageReference = ''reg/ns/app:1''\<rparr>"
        "[\<lparr>metadata_name = ''b-1'', status_phase = ''Running'',
           status_outputDockerImageReference = ''reg/ns/app:1''\<rparr>]"
        "[\<lparr>metadata_name = ''b-2'', status_phase = ''Failed'',
           status_outputDockerImageReference = ''reg/ns/app:2''\<rparr>]"]
  by (simp add: event_producer_body_def event_producer_def queue_writes_def)

section \<open>Redaction of the password in the logged command\<close>

lemma replace_scan_Nil: "replace_scan old new [] = []"
  by (subst replace_scan.simps) simp

lemma replace_scan_match:
  "old \<noteq> [] \<Longrightarrow> s \<noteq> [] \<Longrightarrow> prefix old s \<Longrightarrow>
   replace_scan old new s = new @ replace_scan old new (drop (length old) s)"
  by (subst replace_scan.simps) simp

lemma replace_scan_skip:
  "s \<noteq> [] \<Longrightarrow> \<not> prefix old s \<Longrightarrow>
   replace_scan old new s = hd s # replace_scan old new (tl s)"
  by (subst replace_scan.simps) simp

lemma prefix_replace_scan:
  "old \<noteq> [] \<Longrightarrow> hd new \<notin> set u \<Longrightarrow> new \<noteq> [] \<Longrightarrow> prefix u (replace_scan old new s) \<Longrightarrow> prefix u s"
proof (induction old new s arbitrary: u rule: replace_scan.induct)
  case (1 old new s)
  show ?case
  proof (cases "s = []")
    case True
    with "1.prems" show ?thesis by (simp add: replace_scan_Nil)
  next
    case ne: False
    show ?thesis
    proof (cases "prefix old s")
      case True
      with ne "1.prems" have "replace_scan old new s = new @ replace_scan old new (drop (length old) s)"
        by (simp add: replace_scan_match)
      with "1.prems" have "u = []"
        by (cases u; cases new) auto
      then show ?thesis by simp
    next
      case False
      with ne have eq: "replace_scan old new s = hd s # replace_scan old new (tl s)"
        by (simp add: replace_scan_skip)
      show ?thesis
      proof (cases u)
        case Nil
        then show ?thesis by simp
      next
        case (Cons c u')
        with eq "1.prems" have c: "c = hd s" and p: "prefix u' (replace_scan old new (tl s))"
          by auto
        from Cons "1.prems" have "hd new \<notin> set u'" by simp
        from "1.IH"(2)[OF ne _ "1.prems"(1) this "1.prems"(3) p] False
        have "prefix u' (tl s)" by simp
        with c Cons ne show ?thesis by (cases s) auto
      qed
    qed
  qed
qed

lemma no_sublist_replace_scan:
  "old \<noteq> [] \<Longrightarrow> set new \<inter> set old = {} \<Longrightarrow> new \<noteq> [] \<Longrightarrow> \<not> sublist old (replace_scan old new s)"
proof (induction old new s rule: replace_scan.induct)
  case (1 old new s)
  show ?case
  proof (cases "s = []")
    case True
    with "1.prems" show ?thesis by (simp add: replace_scan_Nil)
  next
    case ne: False
    show ?thesis
    proof (cases "prefix old s")
      case True
      with ne "1.prems" have eq: "replace_scan old new s = new @ replace_scan old new (drop (length old) s)"
        by (simp add: replace_scan_match)
      from "1.IH"(1)[OF ne _ "1.prems"] True "1.prems"
      have ih: "\<not> sublist old (replace_scan old new (drop (length old) s))" by simp
      have np: "\<not> sublist old (w @ t)" if "set w \<subseteq> set new" "\<not> sublist old t" for w t
        using that
      proof (induction w)
        case Nil
        then show ?case by simp
      next
        case (Cons a w)
        with "1.prems" have "\<not> prefix old (a # w @ t)"
          by (cases old) auto
        with Cons show ?case by (simp add: sublist_Cons_right)
      qed
      show ?thesis
        unfolding eq using np[OF _ ih] by simp
    next
      case False
      with ne have eq: "replace_scan old new s = hd s # replace_scan old new (tl s)"
        by (simp add: replace_scan_skip)
      from "1.IH"(2)[OF ne _ "1.prems"] False
      have ih: "\<not> sublist old (replace_scan old new (tl s))" by simp
      from "1.prems" have "hd new \<notin> set old" by (cases new) auto
      from prefix_replace_scan[OF "1.prems"(1) this "1.prems"(3)] False
      have "\<not> prefix old (replace_scan old new s)"
        by blast
      with ih show ?thesis
        unfolding eq by (simp add: sublist_Cons_right)
    qed
  qed
qed

lemma running_logs_push_image:
  "running_logs (fst (push_image env img push_registry registry_user (Some password) src dst)) =
     (case list_index (str_rsplit1 img CHR ''/'') 1 of
        Inl e \<Rightarrow> []
      | Inr image_name \<Rightarrow>
          [str_replace (copy_cmd (skopeo_exec_path env) src dst registry_user (Some password) img
             (push_registry @ ''/'' @ image_name)) password ''***''])"
  by (simp add: push_image_def running_logs_def Let_def split: sum.splits prod.splits)

text \<open>
  Claim C5, as amended. For every registry password that is not empty and has no \<open>*\<close> in it,
  the command text that \<^verbatim>\<open>_push_image\<close> writes to the log (the argument of
  \<^verbatim>\<open>"Running: %s"\<close>) does not contain the password. For a password with a \<open>*\<close> the
  replacement text \<^verbatim>\<open>***\<close> can itself spell the password, as the counterexample shows.
\<close>

theorem redacted_log_hides_password:
  assumes "password \<noteq> []" and "CHR ''*'' \<notin> set password"
    and "c \<in> set (running_logs
           (fst (push_image env img push_registry registry_user (Some password) src dst)))"
  shows "\<not> sublist password c"
proof -
  from assms(3) obtain cmd where c: "c = str_replace cmd password ''***''"
    by (auto simp: running_logs_push_image split: sum.splits)
  from assms(1) have "c = replace_scan password ''***'' cmd"
    by (simp add: c str_replace_def)
  moreover from assms(2) have "set ''***'' \<inter> set password = {}"
    by simp
  ultimately show ?thesis
    using no_sublist_replace_scan [OF assms(1), of "''***''" cmd] by simp
qed

lemma replace_scan_Cons_simp:
  "replace_scan old new (c # cs) =
     (if old \<noteq> [] \<and> prefix old (c # cs)
      then new @ replace_scan old new (drop (length old) (c # cs))
      else c # replace_scan old new cs)"
  by (subst replace_scan.simps) simp

theorem redaction_counterexample:
  "running_logs (fst (push_image env_ok ''r/i'' ''p'' (Some ''u'') (Some ''*'') True True)) =
     [''skopeo copy --dest-creds=u:*** docker://r/i docker://p/i'']
   \<and> sublist ''*'' ''skopeo copy --dest-creds=u:*** docker://r/i docker://p/i''"
  by (simp add: running_logs_push_image env_ok_def list_index_def str_rsplit1_def copy_cmd_def
      str_replace_def replace_scan_Cons_simp replace_scan_Nil sublist_Cons_right)

theorem redacted_log_hides_password_witness:
  "running_logs (fst (push_image env_ok ''r/i'' ''p'' (Some ''u'') (Some ''s3cret'') True True)) =
     [''skopeo copy --dest-creds=u:*** docker://r/i docker://p/i'']
   \<and> \<not> sublist ''s3cret'' ''skopeo copy --dest-creds=u:*** docker://r/i docker://p/i''"
proof -
  have l: "running_logs (fst (push_image env_ok ''r/i'' ''p'' (Some ''u'') (Some ''s3cret'') True True)) =
     [''skopeo copy --dest-creds=u:*** docker://r/i docker://p/i'']"
    by (simp add: running_logs_push_image env_ok_def list_index_def str_rsplit1_def copy_cmd_def
      str_replace_def replace_scan_Cons_simp replace_scan_Nil)
  have "\<not> sublist ''s3cret'' ''skopeo copy --dest-creds=u:*** docker://r/i docker://p/i''"
    by (rule redacted_log_hides_password [of "''s3cret''" _ env_ok "''r/i''" "''p''" "Some ''u''" True True])
       (simp_all add: l)
  with l show ?thesis by simp
qed

text \<open>
  Claim C8. With a push registry and neither a registry user nor a registry password,
  \<^verbatim>\<open>_push_image\<close> does not reach the copy: line 163 calls \<^verbatim>\<open>cmd.replace(None, "***")\<close>,
  which raises TypeError, so no command is run and no destination reference is returned.
  Line 147 guards the same value with \<^verbatim>\<open>if registry_password:\<close>; line 163 does not.
\<close>

theorem push_image_without_password_raises:
  "push_image env ''registry.local/ns/app:1'' ''quay.io/mirror'' None None src dst =
     ([Log DEBUG ''Pushing image %r from %r to registry %r, output is %r''
         [S ''app:1'', S ''registry.local/ns/app:1'', S ''quay.io/mirror'',
          S ''quay.io/mirror/app:1'']],
      Inl (TypeError ''replace() argument 1 must be str, not None''))"
  by (simp add: push_image_def list_index_def str_rsplit1_def)

section \<open>The reference handed to the analysis service\<close>

lemma submitted_append: "submitted (t @ u) = submitted t @ submitted u"
  by (simp add: submitted_def)

lemma submitted_Cons_Log: "submitted (Log l f a # t) = submitted t"
  by (simp add: submitted_def)

lemma submitted_push_image:
  "submitted (fst (push_image env img push_registry registry_user registry_password src dst)) = []"
  by (simp add: push_image_def submitted_def Let_def split: sum.splits option.splits prod.splits)

lemma submitted_relocate:
  "submitted (fst (relocate env r push_registry registry_user registry_password src dst)) = []"
  using submitted_push_image
  by (auto simp: relocate_def submitted_append submitted_Cons_Log Let_def
        split: option.splits prod.splits sum.splits)
     (auto simp: submitted_def dest!: arg_cong[where f=fst])

lemma submitted_submit:
  "submitted (fst (submit env r registry_user registry_password dst)) =
     [\<lparr>req_image = r, req_registry_user = registry_user,
       req_registry_password = registry_password, req_verify_tls = dst, req_nowait = True\<rparr>]"
  by (simp add: submit_def submitted_def Let_def split: sum.splits)

lemma submitted_do_analyze_image:
  "submitted (fst (do_analyze_image env r push_registry registry_user registry_password src dst)) =
     (case snd (relocate env r push_registry registry_user registry_password src dst) of
        Inl e \<Rightarrow> []
      | Inr reference \<Rightarrow>
          [\<lparr>req_image = reference, req_registry_user = registry_user,
            req_registry_password = registry_password, req_verify_tls = dst, req_nowait = True\<rparr>])"
proof (cases "relocate env r push_registry registry_user registry_password src dst")
  case (Pair t res)
  have t: "submitted t = []"
    using submitted_relocate [of env r push_registry registry_user registry_password src dst] Pair
    by simp
  show ?thesis
  proof (cases res)
    case (Inl e)
    with Pair t show ?thesis by (simp add: do_analyze_image_def)
  next
    case (Inr reference)
    obtain u res' where s: "submit env reference registry_user registry_password dst = (u, res')"
      by (cases "submit env reference registry_user registry_password dst")
    with submitted_submit [of env reference registry_user registry_password dst]
    have "submitted u = [\<lparr>req_image = reference, req_registry_user = registry_user,
            req_registry_password = registry_password, req_verify_tls = dst, req_nowait = True\<rparr>]"
      by simp
    with Pair Inr t s show ?thesis
      by (simp add: do_analyze_image_def submitted_append)
  qed
qed

lemma submitted_submitter_body:
  "submitted (fst (submitter_body env push_registry registry_user registry_password n r)) =
   submitted (fst (do_analyze_image env r push_registry registry_user registry_password (\<not> n) (\<not> n)))"
  by (simp add: submitter_body_def submitted_append submitted_Cons_Log Let_def
        split: prod.splits sum.splits)
     (simp add: submitted_def)

lemma rsplit1_slash:
  assumes "CHR ''/'' \<in> set r"
  shows "\<exists>pre base. str_rsplit1 r CHR ''/'' = [pre, base] \<and> r = pre @ ''/'' @ base
           \<and> CHR ''/'' \<notin> set base"
proof -
  let ?p = "\<lambda>c. c \<noteq> CHR ''/''"
  let ?base = "rev (takeWhile ?p (rev r))"
  let ?pre = "rev (drop 1 (dropWhile ?p (rev r)))"
  from assms have "dropWhile ?p (rev r) \<noteq> []"
    by (simp add: dropWhile_eq_Nil_conv)
  then obtain c cs where d: "dropWhile ?p (rev r) = c # cs"
    by (cases "dropWhile ?p (rev r)") auto
  then have "c = CHR ''/''"
    using hd_dropWhile [of ?p "rev r"] by fastforce
  have "rev r = takeWhile ?p (rev r) @ dropWhile ?p (rev r)"
    by simp
  then have "r = rev (dropWhile ?p (rev r)) @ ?base"
    by (metis rev_append rev_rev_ident)
  with d \<open>c = CHR ''/''\<close> have "r = ?pre @ ''/'' @ ?base"
    by simp
  moreover have "CHR ''/'' \<notin> set ?base"
    using set_takeWhileD [of "CHR ''/''" ?p "rev r"] by auto
  ultimately show ?thesis
    using assms by (simp add: str_rsplit1_def)
qed

lemma relocate_result:
  "snd (relocate env r push_registry registry_user registry_password src dst) = Inr reference \<Longrightarrow>
   (\<not> truthy push_registry \<and> reference = r)
   \<or> (\<exists>registry pre base. push_registry = Some registry \<and> registry \<noteq> [] \<and> r = pre @ ''/'' @ base
        \<and> CHR ''/'' \<notin> set base \<and> reference = registry @ ''/'' @ base)"
proof (cases "truthy push_registry")
  case False
  assume "snd (relocate env r push_registry registry_user registry_password src dst) = Inr reference"
  with False show ?thesis
    by (auto simp: relocate_def truthy_def split: option.splits)
next
  case True
  assume a: "snd (relocate env r push_registry registry_user registry_password src dst) = Inr reference"
  from True obtain registry where reg: "push_registry = Some registry" "registry \<noteq> []"
    by (auto simp: truthy_def split: option.splits)
  from a reg have p: "snd (push_image env r registry registry_user registry_password src dst) = Inr reference"
    by (auto simp: relocate_def Let_def split: prod.splits sum.splits)
  show ?thesis
  proof (cases "CHR ''/'' \<in> set r")
    case False
    with p show ?thesis
      by (simp add: push_image_def str_rsplit1_def list_index_def)
  next
    case True
    from rsplit1_slash [OF this] obtain pre base where
      b: "str_rsplit1 r CHR ''/'' = [pre, base]" "r = pre @ ''/'' @ base" "CHR ''/'' \<notin> set base"
      by blast
    from p b(1) have "reference = registry @ ''/'' @ base"
      by (auto simp: push_image_def list_index_def Let_def split: option.splits sum.splits prod.splits)
    with reg b show ?thesis by blast
  qed
qed

lemma rsplit1_append_slash:
  assumes "CHR ''/'' \<notin> set base"
  shows "str_rsplit1 (pre @ CHR ''/'' # base) CHR ''/'' = [pre, base]"
proof -
  let ?p = "\<lambda>c. c \<noteq> CHR ''/''"
  have r: "rev (pre @ CHR ''/'' # base) = rev base @ CHR ''/'' # rev pre"
    by simp
  from assms have b: "\<And>x. x \<in> set (rev base) \<Longrightarrow> ?p x"
    by auto
  have t: "takeWhile ?p (rev base @ CHR ''/'' # rev pre) = rev base"
    using takeWhile_append2 [of "rev base" ?p "CHR ''/'' # rev pre"] b by simp
  have d: "dropWhile ?p (rev base @ CHR ''/'' # rev pre) = CHR ''/'' # rev pre"
    using dropWhile_append2 [of "rev base" ?p "CHR ''/'' # rev pre"] b by simp
  show ?thesis
    unfolding str_rsplit1_def r t d by simp
qed

lemma push_image_slash:
  assumes "CHR ''/'' \<notin> set base"
  shows "snd (push_image env (pre @ CHR ''/'' # base) registry user pw src dst) =
     (case pw of
        None \<Rightarrow> Inl (TypeError ''replace() argument 1 must be str, not None'')
      | Some password \<Rightarrow>
          (case run_command env (copy_cmd (skopeo_exec_path env) src dst user pw
                  (pre @ CHR ''/'' # base) (registry @ CHR ''/'' # base)) of
             Inl e \<Rightarrow> Inl e
           | Inr out \<Rightarrow> Inr (registry @ CHR ''/'' # base)))"
  by (simp add: push_image_def rsplit1_append_slash [OF assms] list_index_def Let_def
        split: option.splits sum.splits prod.splits)

lemma push_image_no_slash:
  "CHR ''/'' \<notin> set r \<Longrightarrow>
   snd (push_image env r registry user pw src dst) = Inl (IndexError ''list index out of range'')"
  by (simp add: push_image_def str_rsplit1_def list_index_def)

lemma snd_relocate:
  "snd (relocate env r push user pw src dst) =
     (case push of
        None \<Rightarrow> Inr r
      | Some registry \<Rightarrow>
          if registry = [] then Inr r else snd (push_image env r registry user pw src dst))"
  by (simp add: relocate_def Let_def split: option.splits prod.splits sum.splits)

text \<open>
  Claim C3. For every reference a worker takes from the queue: when the push registry is
  unset (None or empty), the submission interface is called once, with the original
  reference. When it is set and the reference has a slash, so that it is \<open>pre\<close>, a slash
  and the text \<open>base\<close> after the last slash: with a registry password and a copy command
  that returns, the submission interface is called once, with the push registry, a slash
  and \<open>base\<close>; when the copy command raises, or without a registry password (claim C8),
  it is not called. When the push registry is set and the reference has no slash, it is
  not called either.
\<close>

theorem submitted_reference:
  "(\<not> truthy push_registry \<longrightarrow>
      map req_image (submitted (fst (submitter_body env push_registry registry_user
        registry_password n r))) = [r])
   \<and> (truthy push_registry \<longrightarrow> CHR ''/'' \<notin> set base \<longrightarrow>
        run_command env (copy_cmd (skopeo_exec_path env) (\<not> n) (\<not> n) registry_user
          (Some password) (pre @ ''/'' @ base) (the push_registry @ ''/'' @ base)) = Inr out \<longrightarrow>
        map req_image (submitted (fst (submitter_body env push_registry registry_user
          (Some password) n (pre @ ''/'' @ base)))) = [the push_registry @ ''/'' @ base])
   \<and> (truthy push_registry \<longrightarrow> CHR ''/'' \<notin> set base \<longrightarrow>
        run_command env (copy_cmd (skopeo_exec_path env) (\<not> n) (\<not> n) registry_user
          (Some password) (pre @ ''/'' @ base) (the push_registry @ ''/'' @ base)) = Inl e \<longrightarrow>
        submitted (fst (submitter_body env push_registry registry_user
          (Some password) n (pre @ ''/'' @ base))) = [])
   \<and> (truthy push_registry \<longrightarrow> CHR ''/'' \<notin> set base \<longrightarrow>
        submitted (fst (submitter_body env push_registry registry_user
          None n (pre @ ''/'' @ base))) = [])
   \<and> (truthy push_registry \<longrightarrow> CHR ''/'' \<notin> set r \<longrightarrow>
        submitted (fst (submitter_body env push_registry registry_user
          registry_password n r)) = [])"
proof -
  have sub: "submitted (fst (submitter_body env push_registry registry_user pw n x)) =
      (case snd (relocate env x push_registry registry_user pw (\<not> n) (\<not> n)) of
         Inl e \<Rightarrow> []
       | Inr reference \<Rightarrow>
          [\<lparr>req_image = reference, req_registry_user = registry_user,
            req_registry_password = pw, req_verify_tls = (\<not> n), req_nowait = True\<rparr>])"
    for pw x
    by (simp only: submitted_submitter_body submitted_do_analyze_image)
  have unset: "map req_image (submitted (fst (submitter_body env push_registry registry_user
        registry_password n r))) = [r]" if "\<not> truthy push_registry"
    using that by (auto simp: sub snd_relocate truthy_def split: option.splits)
  have rel: "snd (relocate env x push_registry registry_user pw (\<not> n) (\<not> n)) =
      snd (push_image env x (the push_registry) registry_user pw (\<not> n) (\<not> n))"
    if "truthy push_registry" for pw x
    using that by (auto simp: snd_relocate truthy_def split: option.splits)
  have ok: "map req_image (submitted (fst (submitter_body env push_registry registry_user
          (Some password) n (pre @ ''/'' @ base)))) = [the push_registry @ ''/'' @ base]"
    if "truthy push_registry" "CHR ''/'' \<notin> set base"
      "run_command env (copy_cmd (skopeo_exec_path env) (\<not> n) (\<not> n) registry_user
          (Some password) (pre @ ''/'' @ base) (the push_registry @ ''/'' @ base)) = Inr out"
    using that by (simp add: sub rel push_image_slash)
  have failed: "submitted (fst (submitter_body env push_registry registry_user
          (Some password) n (pre @ ''/'' @ base))) = []"
    if "truthy push_registry" "CHR ''/'' \<notin> set base"
      "run_command env (copy_cmd (skopeo_exec_path env) (\<not> n) (\<not> n) registry_user
          (Some password) (pre @ ''/'' @ base) (the push_registry @ ''/'' @ base)) = Inl e"
    using that by (simp add: sub rel push_image_slash)
  have nopw: "submitted (fst (submitter_body env push_registry registry_user
          None n (pre @ ''/'' @ base))) = []"
    if "truthy push_registry" "CHR ''/'' \<notin> set base"
    using that by (simp add: sub rel push_image_slash)
  have noslash: "submitted (fst (submitter_body env push_registry registry_user
          registry_password n r)) = []"
    if "truthy push_registry" "CHR ''/'' \<notin> set r"
    using that by (simp add: sub rel push_image_no_slash)
  from unset ok failed nopw noslash show ?thesis by blast
qed

theorem submitted_reference_witness:
  "map req_image (submitted (fst (submitter_body env_ok (Some ''quay.io/mirror'') (Some ''u'')
      (Some ''pw'') False ''registry.local/ns/app:1''))) = [''quay.io/mirror/app:1'']
   \<and> map req_image (submitted (fst (submitter_body env_ok None None None False
      ''registry.local/ns/app:1''))) = [''registry.local/ns/app:1'']"
proof -
  have t: "truthy (Some ''quay.io/mirror'')" "\<not> truthy None"
    by (simp_all add: truthy_def)
  have b: "CHR ''/'' \<notin> set ''app:1''" by simp
  have c: "run_command env_ok (copy_cmd (skopeo_exec_path env_ok) (\<not> False) (\<not> False) (Some ''u'')
          (Some ''pw'') (''registry.local/ns'' @ ''/'' @ ''app:1'')
          (the (Some ''quay.io/mirror'') @ ''/'' @ ''app:1'')) = Inr ([], [])"
    by (simp add: env_ok_def)
  from submitted_reference [where push_registry = "Some ''quay.io/mirror''" and env = env_ok
      and registry_user = "Some ''u''" and password = "''pw''" and n = False
      and pre = "''registry.local/ns''" and base = "''app:1''" and out = "([], [])"] t(1) b c
  have a: "map req_image (submitted (fst (submitter_body env_ok (Some ''quay.io/mirror'') (Some ''u'')
      (Some ''pw'') False ''registry.local/ns/app:1''))) = [''quay.io/mirror/app:1'']"
    by simp
  from submitted_reference [where push_registry = None and env = env_ok and registry_user = None
      and registry_password = None and n = False and r = "''registry.local/ns/app:1''"] t(2)
  have "map req_image (submitted (fst (submitter_body env_ok None None None False
      ''registry.local/ns/app:1''))) = [''registry.local/ns/app:1'']"
    by simp
  with a show ?thesis by simp
qed

section \<open>Failures of single references in the worker\<close>

lemma handled_append: "handled (t @ u) = handled t @ handled u"
  by (simp add: handled_def)

lemma failures_append: "failures (t @ u) = failures t @ failures u"
  by (simp add: failures_def)

lemma commands_append: "commands (t @ u) = commands t @ commands u"
  by (simp add: commands_def)

lemma handled_Nil: "handled [] = []"
  by (simp add: handled_def)

lemma handled_Log:
  "handled (Log l f as # t) =
     (case as of [S r] \<Rightarrow> if l = INFO \<and> f = ''Handling analysis of image %r'' then [r] else []
      | _ \<Rightarrow> []) @ handled t"
  by (simp add: handled_def)

lemma failures_Nil: "failures [] = []"
  by (simp add: failures_def)

lemma failures_Log:
  "failures (Log l f as # t) =
     (case as of [S r, S m] \<Rightarrow> if l = EXCEPTION then [(r, m)] else [] | _ \<Rightarrow> []) @ failures t"
  by (simp add: failures_def)

lemma queue_writes_Nil: "queue_writes [] = []"
  by (simp add: queue_writes_def)

lemma commands_Nil: "commands [] = []"
  by (simp add: commands_def)

lemma commands_Cons_Log: "commands (Log l f as # t) = commands t"
  by (simp add: commands_def)

lemma quiet_push_image:
  "handled (fst (push_image env img reg user pw src dst)) = []"
  "failures (fst (push_image env img reg user pw src dst)) = []"
  "queue_writes (fst (push_image env img reg user pw src dst)) = []"
  by (simp_all add: push_image_def handled_def failures_def queue_writes_def Let_def
        split: sum.splits option.splits prod.splits)

lemma fst_relocate:
  "fst (relocate env r push user pw src dst) =
     (case push of
        None \<Rightarrow> []
      | Some registry \<Rightarrow>
          if registry = [] then []
          else [Log INFO ''Pushing image %r to an external push registry %r'' [S r, S registry]]
            @ fst (push_image env r registry user pw src dst)
            @ (case snd (push_image env r registry user pw src dst) of
                 Inl e \<Rightarrow> []
               | Inr pushed \<Rightarrow> [Log INFO ''Successfully pushed image to %r'' [S pushed]]))"
  by (simp add: relocate_def Let_def split: option.splits prod.splits sum.splits)

lemma quiet_relocate:
  "handled (fst (relocate env r push user pw src dst)) = []"
  "failures (fst (relocate env r push user pw src dst)) = []"
  "queue_writes (fst (relocate env r push user pw src dst)) = []"
  unfolding fst_relocate
  by (simp_all add: handled_append handled_Log handled_Nil failures_append failures_Log
        failures_Nil queue_writes_append queue_writes_Cons_Log queue_writes_Nil
        quiet_push_image split: option.splits sum.splits)

lemma quiet_submit:
  "handled (fst (submit env r user pw dst)) = []"
  "failures (fst (submit env r user pw dst)) = []"
  "queue_writes (fst (submit env r user pw dst)) = []"
  "commands (fst (submit env r user pw dst)) = []"
  by (simp_all add: submit_def handled_def failures_def queue_writes_def commands_def Let_def
        split: sum.splits)

lemma fst_do_analyze_image:
  "\<exists>u. fst (do_analyze_image env r push user pw src dst) =
         fst (relocate env r push user pw src dst) @ u
       \<and> handled u = [] \<and> failures u = [] \<and> queue_writes u = [] \<and> commands u = []"
proof (cases "relocate env r push user pw src dst")
  case (Pair t res)
  show ?thesis
  proof (cases res)
    case (Inl e)
    with Pair have "fst (do_analyze_image env r push user pw src dst) = t @ []"
      by (simp add: do_analyze_image_def)
    with Pair show ?thesis
      by (simp add: handled_def failures_def queue_writes_def commands_def)
  next
    case (Inr reference)
    with Pair have "fst (do_analyze_image env r push user pw src dst) =
        t @ fst (submit env reference user pw dst)"
      by (simp add: do_analyze_image_def split: prod.splits)
    with Pair quiet_submit [of env reference user pw dst] show ?thesis
      by simp
  qed
qed

lemma quiet_do_analyze_image:
  "handled (fst (do_analyze_image env r push user pw src dst)) = []"
  "failures (fst (do_analyze_image env r push user pw src dst)) = []"
  "queue_writes (fst (do_analyze_image env r push user pw src dst)) = []"
  using fst_do_analyze_image [of env r push user pw src dst] quiet_relocate [of env r push user pw src dst]
  by (auto simp: handled_append failures_append queue_writes_append)

lemma fst_submitter_body:
  "fst (submitter_body env push user pw n r) =
     [Log INFO ''Handling analysis of image %r'' [S r]]
     @ fst (do_analyze_image env r push user pw (\<not> n) (\<not> n))
     @ (case snd (do_analyze_image env r push user pw (\<not> n) (\<not> n)) of
          Inl exc \<Rightarrow> [Log EXCEPTION ''Failed to submit image %r for analysis to Thoth: %s''
                        [S r, S (str_exn exc)]]
        | Inr analysis_id \<Rightarrow> [])"
  by (simp add: submitter_body_def Let_def split: prod.splits sum.splits)

lemma snd_submitter_body: "snd (submitter_body env push user pw n r) = Inr ()"
  by (simp add: submitter_body_def Let_def split: prod.splits sum.splits)

lemma handled_submitter_body: "handled (fst (submitter_body env push user pw n r)) = [r]"
  by (simp add: fst_submitter_body handled_append handled_Log handled_Nil
        quiet_do_analyze_image split: sum.splits)

lemma queue_writes_submitter_body:
  "queue_writes (fst (submitter_body env push user pw n r)) = []"
  by (simp add: fst_submitter_body queue_writes_append queue_writes_Cons_Log queue_writes_Nil
        quiet_do_analyze_image split: sum.splits)

lemma failures_submitter_body:
  "failures (fst (submitter_body env push user pw n r)) =
     (case snd (do_analyze_image env r push user pw (\<not> n) (\<not> n)) of
        Inl exc \<Rightarrow> [(r, str_exn exc)] | Inr analysis_id \<Rightarrow> [])"
  by (simp add: fst_submitter_body failures_append failures_Log failures_Nil
        quiet_do_analyze_image split: sum.splits)

lemma submitter_Cons:
  "submitter env push user pw n (r # rest) =
     (fst (submitter_body env push user pw n r) @ fst (submitter env push user pw n rest),
      snd (submitter env push user pw n rest))"
  using snd_submitter_body [of env push user pw n r]
  by (cases "submitter_body env push user pw n r") (auto split: prod.splits sum.splits)

lemma snd_submitter: "snd (submitter env push user pw n refs) = Waiting"
  by (induction refs) (simp_all add: submitter_Cons del: submitter.simps(2))

lemma fst_submitter:
  "fst (submitter env push user pw n refs) =
     concat (map (\<lambda>r. fst (submitter_body env push user pw n r)) refs)"
  by (induction refs) (simp_all add: submitter_Cons del: submitter.simps(2))

text \<open>
  Claim C6. Whatever references a worker takes from the queue and whatever relocation and
  submission raise on them, the worker is waiting for the next reference afterwards: it has
  announced every reference, in order, it has logged one failure for each reference whose
  processing raised, with that reference and the error text, it has put nothing on the
  queue, and what it does on later references is what it would have done without the
  earlier ones.
\<close>

theorem submitter_isolates_failures:
  "snd (submitter env push user pw n refs) = Waiting
   \<and> handled (fst (submitter env push user pw n refs)) = refs
   \<and> queue_writes (fst (submitter env push user pw n refs)) = []
   \<and> failures (fst (submitter env push user pw n refs)) =
       concat (map (\<lambda>r. case snd (do_analyze_image env r push user pw (\<not> n) (\<not> n)) of
                           Inl exc \<Rightarrow> [(r, str_exn exc)] | Inr analysis_id \<Rightarrow> []) refs)
   \<and> fst (submitter env push user pw n (refs @ later)) =
       fst (submitter env push user pw n refs) @ fst (submitter env push user pw n later)"
proof -
  have h: "handled (fst (submitter env push user pw n refs)) = refs"
    by (induction refs) (simp_all add: submitter_Cons handled_append handled_submitter_body
        handled_Nil del: submitter.simps(2))
  have q: "queue_writes (fst (submitter env push user pw n refs)) = []"
    by (induction refs) (simp_all add: submitter_Cons queue_writes_append
        queue_writes_submitter_body queue_writes_Nil del: submitter.simps(2))
  have f: "failures (fst (submitter env push user pw n refs)) =
       concat (map (\<lambda>r. case snd (do_analyze_image env r push user pw (\<not> n) (\<not> n)) of
                           Inl exc \<Rightarrow> [(r, str_exn exc)] | Inr analysis_id \<Rightarrow> []) refs)"
    by (induction refs) (simp_all add: submitter_Cons failures_append
        failures_submitter_body failures_Nil del: submitter.simps(2))
  have a: "fst (submitter env push user pw n (refs @ later)) =
       fst (submitter env push user pw n refs) @ fst (submitter env push user pw n later)"
    by (simp add: fst_submitter)
  from h q f a show ?thesis
    by (simp add: snd_submitter)
qed


theorem submitter_isolates_failures_witness:
  "submitter (env_rejecting ''reg/ns/bad:1'') None None None False
     [''reg/ns/bad:1'', ''reg/ns/good:1''] =
   ([Log INFO ''Handling analysis of image %r'' [S ''reg/ns/bad:1''],
     ImageAnalysis \<lparr>req_image = ''reg/ns/bad:1'', req_registry_user = None,
       req_registry_password = None, req_verify_tls = True, req_nowait = True\<rparr>,
     Log EXCEPTION ''Failed to submit image %r for analysis to Thoth: %s''
       [S ''reg/ns/bad:1'', S ''rejected''],
     Log INFO ''Handling analysis of image %r'' [S ''reg/ns/good:1''],
     ImageAnalysis \<lparr>req_image = ''reg/ns/good:1'', req_registry_user = None,
       req_registry_password = None, req_verify_tls = True, req_nowait = True\<rparr>,
     Log INFO ''Successfully submitted %r to Thoth for analysis; analysis id: %s''
       [S ''reg/ns/good:1'', S ''analysis-1'']],
    Waiting)
   \<and> failures (fst (submitter (env_rejecting ''reg/ns/bad:1'') None None None False
        [''reg/ns/bad:1'', ''reg/ns/good:1''])) = [(''reg/ns/bad:1'', ''rejected'')]"
  using submitter_isolates_failures [of "env_rejecting ''reg/ns/bad:1''" None None None False
      "[''reg/ns/bad:1'', ''reg/ns/good:1'']" "[]"]
  by (simp add: submitter_body_def do_analyze_image_def relocate_def submit_def
      env_rejecting_def Let_def)

section \<open>The TLS setting of a worker\<close>

lemma commands_push_image:
  "set (commands (fst (push_image env img reg user pw src dst)))
     \<subseteq> {copy_cmd (skopeo_exec_path env) src dst user pw img output | output. True}"
  by (auto simp: push_image_def commands_def Let_def split: sum.splits option.splits prod.splits)

lemma commands_relocate:
  "set (commands (fst (relocate env r push user pw src dst)))
     \<subseteq> {copy_cmd (skopeo_exec_path env) src dst user pw r output | output. True}"
  unfolding fst_relocate
  using commands_push_image [of env r _ user pw src dst]
  by (auto simp: commands_append commands_Cons_Log commands_Nil split: option.splits sum.splits)

lemma commands_do_analyze_image:
  "set (commands (fst (do_analyze_image env r push user pw src dst)))
     \<subseteq> {copy_cmd (skopeo_exec_path env) src dst user pw r output | output. True}"
  using fst_do_analyze_image [of env r push user pw src dst]
    commands_relocate [of env r push user pw src dst]
  by (auto simp: commands_append)

lemma commands_submitter_body:
  "set (commands (fst (submitter_body env push user pw n r)))
     \<subseteq> {copy_cmd (skopeo_exec_path env) (\<not> n) (\<not> n) user pw r output | output. True}"
  using commands_do_analyze_image [of env r push user pw "\<not> n" "\<not> n"]
  by (auto simp: fst_submitter_body commands_append commands_Cons_Log commands_Nil
        split: sum.splits)

lemma verify_tls_submitter_body:
  "request \<in> set (submitted (fst (submitter_body env push user pw n r)))
     \<Longrightarrow> req_verify_tls request = (\<not> n)"
  by (auto simp: submitted_submitter_body submitted_do_analyze_image split: sum.splits)

text \<open>
  Claim C10. In a worker started with the setting \<open>n\<close> for no-registry-tls-verify, every
  call of the submission interface has \<open>verify_tls = (\<not> n)\<close>, and every copy command that is
  run was built with the source flag and the destination flag both \<open>\<not> n\<close>: the two never
  differ.
\<close>

theorem one_tls_setting:
  "(\<forall>request \<in> set (submitted (fst (submitter env push user pw n refs))).
      req_verify_tls request = (\<not> n))
   \<and> (\<forall>cmd \<in> set (commands (fst (submitter env push user pw n refs))).
        \<exists>r output. r \<in> set refs
          \<and> cmd = copy_cmd (skopeo_exec_path env) (\<not> n) (\<not> n) user pw r output)"
proof -
  have s: "submitted (fst (submitter env push user pw n refs)) =
      concat (map (\<lambda>r. submitted (fst (submitter_body env push user pw n r))) refs)"
    by (induction refs) (simp_all add: submitter_Cons submitted_append del: submitter.simps(2),
        simp add: submitted_def)
  have c: "commands (fst (submitter env push user pw n refs)) =
      concat (map (\<lambda>r. commands (fst (submitter_body env push user pw n r))) refs)"
    by (induction refs) (simp_all add: submitter_Cons commands_append commands_Nil
        del: submitter.simps(2))
  show ?thesis
    unfolding s c
    using verify_tls_submitter_body [of _ env push user pw n]
      commands_submitter_body [of env push user pw n]
    by fastforce
qed


theorem one_tls_setting_witness:
  "commands (fst (submitter env_ok (Some ''quay.io/mirror'') (Some ''u'') (Some ''pw'') True
      [''reg/ns/app:1''])) =
     [copy_cmd ''skopeo'' False False (Some ''u'') (Some ''pw'') ''reg/ns/app:1''
        ''quay.io/mirror/app:1'']
   \<and> map req_verify_tls (submitted (fst (submitter env_ok (Some ''quay.io/mirror'') (Some ''u'')
        (Some ''pw'') True [''reg/ns/app:1'']))) = [False]
   \<and> copy_cmd ''skopeo'' False False (Some ''u'') (Some ''pw'') ''reg/ns/app:1''
        ''quay.io/mirror/app:1'' =
      ''skopeo copy --src-tls-verify=false --dest-tls-verify=false --dest-creds=u:pw docker://reg/ns/app:1 docker://quay.io/mirror/app:1''"
  using one_tls_setting [of env_ok "Some ''quay.io/mirror''" "Some ''u''" "Some ''pw''" True
      "[''reg/ns/app:1'']"]
  by (simp add: submitter_body_def do_analyze_image_def relocate_def push_image_def submit_def
      list_index_def str_rsplit1_def env_ok_def commands_def submitted_def Let_def copy_cmd_def)

section \<open>Start and liveness poll\<close>

lemma started_append: "started (t @ u) = started t @ started u"
  by (simp add: started_def)

lemma started_simps:
  "started [] = []"
  "started (Log l f as # t) = started t"
  "started (Configure h v # t) = started t"
  "started (SetLevelDebug # t) = started t"
  "started (Start p # t) = p # started t"
  by (simp_all add: started_def)

lemma start_workers_pool:
  "snd (start_workers pid ws) = map Submitter ws
   \<and> started (fst (start_workers pid ws)) = map Submitter ws"
  by (induction ws) (auto simp: started_simps split: prod.splits)

lemma cli_startup_conflict:
  assumes "cfg_pass_token cfg" and "truthy (cfg_registry_password cfg)"
  shows "started (fst (cli_startup cfg openshift pid)) =
           (if cfg_analyze_existing cfg then [ExistingProducer] else [])"
    and "\<exists>e. snd (cli_startup cfg openshift pid) = Inl e"
    and "snd (cli_startup cfg (Inr token) pid) =
           Inl (ValueError ''Flag --pass-token is disjoint with explicit password propagation'')"
  using assms
  by (auto simp: cli_startup_def Let_def started_append started_simps split: sum.splits)

text \<open>
  Claim C1, as amended. When the pass-token flag is given together with a registry password
  that is not empty, \<^verbatim>\<open>cli\<close> ends with an exception before the event producer and any
  worker is started, so nothing is ever taken from the queue; the exception is the
  ValueError of line 330 when the cluster client could be built. The existing-image
  producer is started before the check (line 322) when analyze-existing is set, and is
  then the only unit started; the process ends with status 1 unless that producer runs on.
\<close>

theorem conflict_stops_startup:
  assumes "cfg_pass_token cfg" and "truthy (cfg_registry_password cfg)"
  shows "started (fst (cli cfg openshift pid polls)) =
           (if cfg_analyze_existing cfg then [ExistingProducer] else [])
       \<and> (\<exists>e. snd (cli cfg openshift pid polls) = Uncaught e 0)
       \<and> snd (cli cfg (Inr token) pid polls) =
           Uncaught (ValueError ''Flag --pass-token is disjoint with explicit password propagation'') 0
       \<and> exit_status (fst (cli cfg openshift pid polls)) (snd (cli cfg openshift pid polls))
             runs_on =
           (if cfg_analyze_existing cfg \<and> runs_on ExistingProducer then None else Some 1)"
proof -
  from cli_startup_conflict(2) [OF assms, of openshift pid]
  obtain e where e: "snd (cli_startup cfg openshift pid) = Inl e" by blast
  then have c: "cli cfg openshift pid polls = (fst (cli_startup cfg openshift pid), Uncaught e 0)"
    by (cases "cli_startup cfg openshift pid") (simp add: cli_def)
  from cli_startup_conflict(3) [OF assms, of token pid]
  have "cli cfg (Inr token) pid polls = (fst (cli_startup cfg (Inr token) pid),
      Uncaught (ValueError ''Flag --pass-token is disjoint with explicit password propagation'') 0)"
    by (cases "cli_startup cfg (Inr token) pid") (simp add: cli_def)
  with c cli_startup_conflict(1) [OF assms, of openshift pid] show ?thesis
    by (simp add: exit_status_def)
qed


theorem conflict_counterexample:
  "cli (example_config\<lparr>cfg_pass_token := True, cfg_registry_password := Some ''secret'',
         cfg_analyze_existing := True\<rparr>) (Inr ''token'') pid_of [all_alive] =
     ([Log INFO ''Build watcher is watching namespace %r and submitting resulting images to Thoth at %r''
         [S ''builds'', S ''api.thoth.example''],
       Start ExistingProducer,
       Configure ''api.thoth.example'' True],
      Uncaught (ValueError ''Flag --pass-token is disjoint with explicit password propagation'') 0)"
  by (simp add: cli_def cli_startup_def example_config_def truthy_def)

theorem conflict_stops_startup_witness:
  "started (fst (cli (example_config\<lparr>cfg_pass_token := True,
       cfg_registry_password := Some ''secret''\<rparr>) (Inr ''token'') pid_of [all_alive])) = []
   \<and> snd (cli (example_config\<lparr>cfg_pass_token := True,
       cfg_registry_password := Some ''secret''\<rparr>) (Inr ''token'') pid_of [all_alive]) =
       Uncaught (ValueError ''Flag --pass-token is disjoint with explicit password propagation'') 0"
  using conflict_stops_startup [of "example_config\<lparr>cfg_pass_token := True,
       cfg_registry_password := Some ''secret''\<rparr>" "Inr ''token''" pid_of "[all_alive]" "''token''"]
  by (simp add: example_config_def truthy_def)

lemma supervise_alive:
  "\<forall>a \<in> set before. \<forall>p \<in> set pool. a p \<Longrightarrow>
   supervise pool (before @ rest) k = supervise pool rest (k + 5 * length before)"
  by (induction before arbitrary: k) (auto simp: list_ex_iff add.assoc)

lemma cli_startup_pool:
  "snd (cli_startup cfg openshift pid) = Inr (pool, args) \<Longrightarrow>
   pool = map Submitter [0 ..< nat (cfg_workers_count cfg)]"
  using start_workers_pool [of pid "[0 ..< nat (cfg_workers_count cfg)]"]
  by (auto simp: cli_startup_def Let_def split: sum.splits if_splits prod.splits)

lemma cli_startup_ok:
  assumes "\<not> (cfg_pass_token cfg \<and> truthy (cfg_registry_password cfg))"
  shows "snd (cli_startup cfg (Inr token) pid) =
           Inr (map Submitter [0 ..< nat (cfg_workers_count cfg)],
                (cfg_push_registry cfg, cfg_registry_user cfg,
                 if cfg_pass_token cfg then Some token else cfg_registry_password cfg,
                 cfg_no_registry_tls_verify cfg))"
    and "started (fst (cli_startup cfg (Inr token) pid)) =
           (if cfg_analyze_existing cfg then [ExistingProducer] else [])
           @ EventProducer # map Submitter [0 ..< nat (cfg_workers_count cfg)]"
  using assms start_workers_pool [of pid "[0 ..< nat (cfg_workers_count cfg)]"]
  by (auto simp: cli_startup_def Let_def started_append started_simps split: prod.splits)

lemma example_pool: "[0 ..< 2] = [0, Suc 0]"
  by (simp add: upt_rec)

lemma cli_supervises:
  "snd (cli_startup cfg openshift pid) = Inr (pool, args) \<Longrightarrow>
   snd (cli cfg openshift pid polls) = supervise pool polls 0"
  by (cases "cli_startup cfg openshift pid") (auto simp: cli_def)

text \<open>
  Claim C2, as amended. The process pool that the poll inspects holds the workers only.
  After a start that succeeded, as long as every worker is alive at every pass, the poll
  goes on and the process has no exit status, whatever \<^verbatim>\<open>is_alive()\<close> would answer for
  the event producer: its termination is not detected.
\<close>

theorem poll_ignores_event_producer:
  assumes "snd (cli_startup cfg openshift pid) = Inr (process_pool, args)"
    and "\<forall>is_alive \<in> set polls. \<forall>w. is_alive (Submitter w)"
  shows "EventProducer \<notin> set process_pool
       \<and> snd (cli cfg openshift pid polls) = Polling (5 * length polls)
       \<and> exit_status (fst (cli cfg openshift pid polls)) (snd (cli cfg openshift pid polls))
             runs_on = None"
proof -
  from cli_startup_pool [OF assms(1)]
  have pool: "process_pool = map Submitter [0 ..< nat (cfg_workers_count cfg)]" .
  with assms(2) have "\<forall>a \<in> set polls. \<forall>p \<in> set process_pool. a p"
    by auto
  from supervise_alive [OF this, of "[]" 0]
  have "supervise process_pool polls 0 = Polling (5 * length polls)"
    by simp
  with cli_supervises [OF assms(1), of polls] pool show ?thesis
    by (auto simp: exit_status_def)
qed

theorem poll_ignores_event_producer_witness:
  "snd (cli example_config (Inr ''token'') pid_of [event_producer_dead, event_producer_dead]) =
     Polling 10
   \<and> snd (cli_startup example_config (Inr ''token'') pid_of) =
       Inr ([Submitter 0, Submitter 1], (None, None, None, False))"
proof -
  have s: "snd (cli_startup example_config (Inr ''token'') pid_of) =
       Inr ([Submitter 0, Submitter 1], (None, None, None, False))"
    using cli_startup_ok(1) [of example_config "''token''" pid_of]
    by (simp add: example_config_def truthy_def example_pool)
  have "\<forall>is_alive \<in> set [event_producer_dead, event_producer_dead]. \<forall>w. is_alive (Submitter w)"
    by (simp add: event_producer_dead_def)
  from poll_ignores_event_producer [OF s this] s show ?thesis
    by simp
qed

theorem event_producer_counterexample:
  "snd (cli example_config (Inr ''token'') pid_of [event_producer_dead, event_producer_dead]) =
     Polling 10
   \<and> started (fst (cli example_config (Inr ''token'') pid_of
        [event_producer_dead, event_producer_dead])) = [EventProducer, Submitter 0, Submitter 1]
   \<and> event_producer_dead EventProducer = False"
proof -
  have ok: "\<not> (cfg_pass_token example_config \<and> truthy (cfg_registry_password example_config))"
    by (simp add: example_config_def)
  have s: "snd (cli_startup example_config (Inr ''token'') pid_of) =
       Inr ([Submitter 0, Submitter 1], (None, None, None, False))"
    using cli_startup_ok(1) [OF ok, of "''token''" pid_of]
    by (simp add: example_config_def example_pool)
  have t: "started (fst (cli_startup example_config (Inr ''token'') pid_of)) =
       [EventProducer, Submitter 0, Submitter 1]"
    using cli_startup_ok(2) [OF ok, of "''token''" pid_of]
    by (simp add: example_config_def example_pool)
  have f: "fst (cli cfg openshift pid polls) = fst (cli_startup cfg openshift pid)"
    for cfg openshift pid polls
    by (simp add: cli_def split: prod.splits sum.splits)
  from cli_supervises [OF s] t show ?thesis
    by (simp add: f event_producer_dead_def)
qed

lemma supervise_raises:
  assumes "\<forall>a \<in> set before. \<forall>p \<in> set process_pool. a p"
    and "dead \<in> set process_pool" and "\<not> is_alive dead"
  shows "supervise process_pool (before @ is_alive # later) 0 =
           Uncaught (RuntimeError ''One of the processes failed'') (5 * length before)"
proof -
  from assms(2,3) have "list_ex (\<lambda>process. \<not> is_alive process) process_pool"
    by (auto simp: list_ex_iff)
  then have "supervise process_pool (is_alive # later) (5 * length before) =
      Uncaught (RuntimeError ''One of the processes failed'') (5 * length before)"
    by simp
  with supervise_alive [OF assms(1), of "is_alive # later" 0] show ?thesis
    by simp
qed

lemma cli_raises_at_first_dead_worker:
  assumes "snd (cli_startup cfg openshift pid) = Inr (process_pool, args)"
    and "\<forall>a \<in> set before. \<forall>p \<in> set process_pool. a p"
    and "dead \<in> set process_pool" and "\<not> is_alive dead"
  shows "snd (cli cfg openshift pid (before @ is_alive # later)) =
           Uncaught (RuntimeError ''One of the processes failed'') (5 * length before)"
proof -
  have "supervise process_pool (before @ is_alive # later) 0 =
           Uncaught (RuntimeError ''One of the processes failed'') (5 * length before)"
    using assms(2) assms(3) assms(4) by (rule supervise_raises)
  with cli_supervises [OF assms(1), of "before @ is_alive # later"] show ?thesis
    by simp
qed

lemma exit_status_Uncaught:
  "exit_status t (Uncaught e slept) runs_on = (if list_ex runs_on (started t) then None else Some 1)"
  by (simp add: exit_status_def)

text \<open>
  Claim C7. The claim asks that a worker found dead while others are alive ends the whole
  process with a non-zero status within one poll interval. Here \<^verbatim>\<open>cli\<close> is started with
  two workers; at the first pass every unit is alive, at the second worker 1 is dead
  while worker 0 and the event producer are alive and run on. The poll does notice: after
  one sleep of five seconds \<^verbatim>\<open>cli\<close> raises RuntimeError and never polls again. But the
  event producer and worker 0 were started as processes that are no daemons, so the
  interpreter waits for them and the process has no exit status: it does not end.
\<close>

theorem dead_worker_does_not_end_process:
  "snd (cli example_config (Inr ''token'') pid_of [all_alive, worker_dead 1, all_alive]) =
     Uncaught (RuntimeError ''One of the processes failed'') 5
   \<and> started (fst (cli example_config (Inr ''token'') pid_of
        [all_alive, worker_dead 1, all_alive])) = [EventProducer, Submitter 0, Submitter 1]
   \<and> worker_dead 1 EventProducer \<and> worker_dead 1 (Submitter 0)
   \<and> exit_status
        (fst (cli example_config (Inr ''token'') pid_of [all_alive, worker_dead 1, all_alive]))
        (snd (cli example_config (Inr ''token'') pid_of [all_alive, worker_dead 1, all_alive]))
        (worker_dead 1) = None"
proof -
  have ok: "\<not> (cfg_pass_token example_config \<and> truthy (cfg_registry_password example_config))"
    by (simp add: example_config_def)
  have s: "snd (cli_startup example_config (Inr ''token'') pid_of) =
       Inr ([Submitter 0, Submitter 1], (None, None, None, False))"
    using cli_startup_ok(1) [OF ok, of "''token''" pid_of]
    by (simp add: example_config_def example_pool)
  have f: "fst (cli cfg openshift pid polls) = fst (cli_startup cfg openshift pid)"
    for cfg openshift pid polls
    by (simp add: cli_def split: prod.splits sum.splits)
  have t: "started (fst (cli example_config (Inr ''token'') pid_of polls)) =
       [EventProducer, Submitter 0, Submitter 1]" for polls
    using cli_startup_ok(2) [OF ok, of "''token''" pid_of]
    by (simp add: f example_config_def example_pool)
  have a: "\<forall>a \<in> set [all_alive]. \<forall>p \<in> set [Submitter 0, Submitter 1]. a p"
    by (simp add: all_alive_def)
  have d: "Submitter 1 \<in> set [Submitter 0, Submitter 1]" by simp
  have n: "\<not> worker_dead 1 (Submitter 1)" by (simp add: worker_dead_def)
  from cli_raises_at_first_dead_worker
    [where cfg = example_config and openshift = "Inr ''token''" and pid = pid_of
       and process_pool = "[Submitter 0, Submitter 1]" and args = "(None, None, None, False)"
       and before = "[all_alive]" and dead = "Submitter 1" and is_alive = "worker_dead 1"
       and later = "[all_alive]", OF s a d n]
  have r: "snd (cli example_config (Inr ''token'') pid_of [all_alive, worker_dead 1, all_alive]) =
     Uncaught (RuntimeError ''One of the processes failed'') 5"
    by simp
  have e: "exit_status
        (fst (cli example_config (Inr ''token'') pid_of [all_alive, worker_dead 1, all_alive]))
        (snd (cli example_config (Inr ''token'') pid_of [all_alive, worker_dead 1, all_alive]))
        (worker_dead 1) = None"
    unfolding r exit_status_Uncaught t
    by (simp add: worker_dead_def)
  have w: "worker_dead 1 EventProducer" "worker_dead 1 (Submitter 0)"
    by (simp_all add: worker_dead_def)
  from r t [of "[all_alive, worker_dead 1, all_alive]"] w e show ?thesis
    by blast
qed

section \<open>Exactly-once consumption\<close>

lemma exec_keeps_references:
  "exec workers a s = Some s' \<Longrightarrow>
   map snd (attempts s') @ queue s' @ pending s' = map snd (attempts s) @ queue s @ pending s"
  by (cases a) (auto split: list.splits if_splits)

lemma exec_progress:
  "exec workers a s = Some s' \<Longrightarrow>
   Suc (length (queue s') + 2 * length (pending s')) = length (queue s) + 2 * length (pending s)"
  by (cases a) (auto split: list.splits if_splits)

lemma exec_worker:
  "exec workers a s = Some s' \<Longrightarrow> \<forall>x \<in> set (attempts s). fst x < workers \<Longrightarrow>
   \<forall>x \<in> set (attempts s'). fst x < workers"
  by (cases a) (auto split: list.splits if_splits)

lemma run_Cons:
  "run workers (a # acts) s = Some s' \<Longrightarrow>
   \<exists>s1. exec workers a s = Some s1 \<and> run workers acts s1 = Some s'"
  by (simp split: option.splits)

lemma run_keeps_references:
  "run workers acts s = Some s' \<Longrightarrow>
   map snd (attempts s') @ queue s' @ pending s' = map snd (attempts s) @ queue s @ pending s"
proof (induction acts arbitrary: s)
  case Nil
  then show ?case by simp
next
  case (Cons a acts)
  from run_Cons [OF Cons.prems] obtain s1 where
    e: "exec workers a s = Some s1" and r: "run workers acts s1 = Some s'" by blast
  from Cons.IH [OF r] exec_keeps_references [OF e] show ?case by simp
qed

lemma run_progress:
  "run workers acts s = Some s' \<Longrightarrow>
   length acts + (length (queue s') + 2 * length (pending s')) =
     length (queue s) + 2 * length (pending s)"
proof (induction acts arbitrary: s)
  case Nil
  then show ?case by simp
next
  case (Cons a acts)
  from run_Cons [OF Cons.prems] obtain s1 where
    e: "exec workers a s = Some s1" and r: "run workers acts s1 = Some s'" by blast
  from Cons.IH [OF r] exec_progress [OF e] show ?case by simp
qed

lemma run_worker:
  "run workers acts s = Some s' \<Longrightarrow> \<forall>x \<in> set (attempts s). fst x < workers \<Longrightarrow>
   \<forall>x \<in> set (attempts s'). fst x < workers"
proof (induction acts arbitrary: s)
  case Nil
  then show ?case by simp
next
  case (Cons a acts)
  from run_Cons [OF Cons.prems(1)] obtain s1 where
    e: "exec workers a s = Some s1" and r: "run workers acts s1 = Some s'" by blast
  from Cons.IH [OF r exec_worker [OF e Cons.prems(2)]] show ?case .
qed

lemma final_iff: "final workers s \<longleftrightarrow> (\<forall>a. exec workers a s = None)"
proof
  assume f: "final workers s"
  show "\<forall>a. exec workers a s = None"
  proof
    fix a
    from f show "exec workers a s = None"
      by (cases a) (auto simp: final_def split: list.splits)
  qed
next
  assume n: "\<forall>a. exec workers a s = None"
  then have "exec workers Put s = None" by blast
  then have p: "pending s = []" by (simp split: list.splits)
  have "workers = 0 \<or> queue s = []"
  proof (cases "workers = 0")
    case False
    from n have "exec workers (Get 0) s = None" by blast
    with False show ?thesis by (simp split: list.splits)
  qed simp
  with p show "final workers s" by (simp add: final_def)
qed

text \<open>
  Claim C9, as amended. With at least one worker, in every interleaving of the producers'
  puts and the workers' gets: the references attempted so far, those in the queue and
  those still to be put make up the enqueued sequence, so no reference is lost and none is
  attempted twice or by two workers; every attempt is made by one of the workers; a run
  has at most twice as many steps as there are references; and no further step is possible
  exactly when all the references have been attempted. With no worker at all nothing is
  ever attempted, as the counterexample shows.
\<close>

theorem every_reference_attempted_once:
  assumes "0 < workers" and "distinct refs" and "run workers acts (init refs) = Some s"
  shows "map snd (attempts s) @ queue s @ pending s = refs
       \<and> distinct (map snd (attempts s))
       \<and> (\<forall>x \<in> set (attempts s). fst x < workers)
       \<and> length acts + (length (queue s) + 2 * length (pending s)) = 2 * length refs
       \<and> ((\<forall>a. exec workers a s = None) \<longleftrightarrow> map snd (attempts s) = refs)"
proof -
  from run_keeps_references [OF assms(3)]
  have inv: "map snd (attempts s) @ queue s @ pending s = refs"
    by (simp add: init_def)
  from run_progress [OF assms(3)]
  have len: "length acts + (length (queue s) + 2 * length (pending s)) = 2 * length refs"
    by (simp add: init_def)
  have wk: "\<forall>x \<in> set (attempts s). fst x < workers"
    by (rule run_worker [OF assms(3)]) (simp add: init_def)
  from inv assms(2) have d: "distinct (map snd (attempts s))"
    by (metis distinct_append)
  have "final workers s \<longleftrightarrow> map snd (attempts s) = refs"
  proof
    assume "final workers s"
    with assms(1) inv show "map snd (attempts s) = refs" by (simp add: final_def)
  next
    assume "map snd (attempts s) = refs"
    with inv have "queue s @ pending s = []" by (metis append_self_conv)
    then show "final workers s" by (simp add: final_def)
  qed
  then have fin: "(\<forall>a. exec workers a s = None) \<longleftrightarrow> map snd (attempts s) = refs"
    by (simp only: final_iff)
  from inv d wk len fin show ?thesis by blast
qed


theorem every_reference_attempted_once_witness:
  "run 2 [Put, Get 1, Put, Get 0] (init [''reg/ns/a:1'', ''reg/ns/b:1'']) =
     Some \<lparr>pending = [], queue = [], attempts = [(1, ''reg/ns/a:1''), (0, ''reg/ns/b:1'')]\<rparr>
   \<and> final 2 \<lparr>pending = [], queue = [], attempts = [(1, ''reg/ns/a:1''), (0, ''reg/ns/b:1'')]\<rparr>"
proof -
  have r: "run 2 [Put, Get 1, Put, Get 0] (init [''reg/ns/a:1'', ''reg/ns/b:1'']) =
     Some \<lparr>pending = [], queue = [], attempts = [(1, ''reg/ns/a:1''), (0, ''reg/ns/b:1'')]\<rparr>"
    by (simp add: init_def)
  have d: "distinct [''reg/ns/a:1'', ''reg/ns/b:1'']" by simp
  have w: "(0::nat) < 2" by simp
  from every_reference_attempted_once [OF w d r] show ?thesis
    using r by (simp add: final_def)
qed


theorem no_workers_counterexample:
  "snd (cli_startup (example_config\<lparr>cfg_workers_count := 0\<rparr>) (Inr ''token'') pid_of) =
     Inr ([], (None, None, None, False))
   \<and> run 0 [Put] (init [''reg/ns/a:1'']) =
       Some \<lparr>pending = [], queue = [''reg/ns/a:1''], attempts = []\<rparr>
   \<and> final 0 \<lparr>pending = [], queue = [''reg/ns/a:1''], attempts = []\<rparr>"
proof -
  have "snd (cli_startup (example_config\<lparr>cfg_workers_count := 0\<rparr>) (Inr ''token'') pid_of) =
     Inr ([], (None, None, None, False))"
    using cli_startup_ok(1) [of "example_config\<lparr>cfg_workers_count := 0\<rparr>" "''token''" pid_of]
    by (simp add: example_config_def)
  then show ?thesis
    by (simp add: init_def final_def)
qed

end
